theory Spec2Isabelle
  imports Complex_Main "HOL-Library.Sublist"
begin

text \<open>
  A model of \<^verbatim>\<open>src/events.py\<close>: the extraction of the historical events of a day from
  an encyclopedia page, each event located by the coordinates of a page it links to.
  The functions of the source keep their names. What lies outside the source file is a
  parameter or a model of its own, each introduced where it is first needed: the network
  and the markup library as the record \<open>env\<close>, the built-in string operations, \<open>int\<close>
  and the regular expressions of the interpreter as functions on code point lists.
\<close>

section \<open>Strings\<close>

text \<open>
  A Python \<open>str\<close> is a sequence of Unicode code points. The dash of the event pattern
  is U+2013 (the en dash), which is no ASCII character, so a character is modelled by
  its code point and a string by the list of its code points. \<open>ustr\<close> reads an ASCII
  literal.
\<close>

type_synonym ustring = "nat list"

definition ustr :: "string \<Rightarrow> ustring" where
  "ustr s = map of_char s"

definition en_dash :: nat where
  "en_dash = 8211"

text \<open>The delimiter of \<^verbatim>\<open>split(' \u2013 ', 1)\<close>: a space, the en dash, a space.\<close>

definition dash_sep :: ustring where
  "dash_sep = [32, en_dash, 32]"

section \<open>Exceptions\<close>

text \<open>
  Every exception the code can raise is a value. \<open>HTTPError\<close> is the one exception the
  source catches; the others leave the function that raises them and every caller.
\<close>

datatype error =
  ValueError | IndexError | KeyError | TypeError | AttributeError
  | HTTPError | URLError | JSONDecodeError

definition and_then :: "error + 'a \<Rightarrow> ('a \<Rightarrow> error + 'b) \<Rightarrow> error + 'b" where
  "and_then r f = (case r of Inl e \<Rightarrow> Inl e | Inr x \<Rightarrow> f x)"

text \<open>\<^verbatim>\<open>xs[i]\<close> for a non-negative constant \<open>i\<close>.\<close>

definition index :: "'a list \<Rightarrow> nat \<Rightarrow> error + 'a" where
  "index xs i = (if i < length xs then Inr (xs ! i) else Inl IndexError)"

section \<open>Built-in operations of the interpreter\<close>

subsection \<open>Character classes\<close>

text \<open>
  \<^verbatim>\<open>\d\<close> in a \<open>str\<close> pattern and \<open>int\<close> accept every character with the Unicode
  property \<^emph>\<open>decimal digit\<close>. The digits come in runs of ten consecutive code points,
  worth 0 to 9; \<open>decimal_zeros\<close> lists the first code point of each run (Unicode
  14.0, the table of CPython 3.11). \<open>isspace\<close> is the whitespace of \<open>str.strip\<close>.
\<close>

definition decimal_zeros :: "nat list" where
  "decimal_zeros =
     [48, 1632, 1776, 1984, 2406, 2534, 2662, 2790, 2918, 3046, 3174, 3302, 3430, 3558,
      3664, 3792, 3872, 4160, 4240, 6112, 6160, 6470, 6608, 6784, 6800, 6992, 7088, 7232,
      7248, 42528, 43216, 43264, 43472, 43504, 43600, 44016, 65296, 66720, 68912, 69734,
      69872, 69942, 70096, 70384, 70736, 70864, 71248, 71360, 71472, 71904, 72016, 72784,
      73040, 73120, 92768, 92864, 93008, 120782, 120792, 120802, 120812, 120822, 123200,
      123632, 125264, 130032]"

definition decimal :: "nat \<Rightarrow> nat option" where
  "decimal c =
     (case find (\<lambda>z. z \<le> c \<and> c < z + 10) decimal_zeros of
        None \<Rightarrow> None
      | Some z \<Rightarrow> Some (c - z))"

definition isdigit :: "nat \<Rightarrow> bool" where
  "isdigit c \<longleftrightarrow> decimal c \<noteq> None"

definition isspace :: "nat \<Rightarrow> bool" where
  "isspace c \<longleftrightarrow>
     c \<in> set ([9, 10, 11, 12, 13, 28, 29, 30, 31, 32, 133, 160, 5760] @ [8192..<8203]
               @ [8232, 8233, 8239, 8287, 12288])"

subsection \<open>\<open>strip\<close>, \<open>in\<close>, \<open>split\<close>, \<open>replace\<close>\<close>

definition strip :: "ustring \<Rightarrow> ustring" where
  "strip s = rev (dropWhile isspace (rev (dropWhile isspace s)))"

text \<open>\<open>find_str sub s\<close> is \<^verbatim>\<open>s.find(sub)\<close>: the index of the first occurrence.\<close>

fun find_str :: "ustring \<Rightarrow> ustring \<Rightarrow> nat option" where
  "find_str sub [] = (if sub = [] then Some 0 else None)"
| "find_str sub (c # cs) =
     (if prefix sub (c # cs) then Some 0 else map_option Suc (find_str sub cs))"

text \<open>\<open>contains sub s\<close> is \<^verbatim>\<open>sub in s\<close>.\<close>

definition contains :: "ustring \<Rightarrow> ustring \<Rightarrow> bool" where
  "contains sub s \<longleftrightarrow> find_str sub s \<noteq> None"

lemma find_str_bound: "find_str sub s = Some i \<Longrightarrow> i + length sub \<le> length s"
proof (induction s arbitrary: i)
  case Nil
  then show ?case by (simp split: if_splits)
next
  case (Cons c cs)
  show ?case
  proof (cases "prefix sub (c # cs)")
    case True
    with Cons.prems show ?thesis
      by (auto dest: prefix_length_le)
  next
    case False
    with Cons.prems obtain j where "find_str sub cs = Some j" "i = Suc j"
      by auto
    with Cons.IH show ?thesis by auto
  qed
qed

text \<open>
  \<open>split s sep\<close> is \<^verbatim>\<open>s.split(sep)\<close> and \<open>replace s old new\<close> is
  \<^verbatim>\<open>s.replace(old, new)\<close>: both scan from the left and continue after each
  occurrence they find. The source calls them with constant, non-empty separators only
  (on an empty separator \<open>split\<close> raises and \<open>replace\<close> inserts between all
  characters; neither is modelled). \<open>split1 s sep\<close> is \<^verbatim>\<open>s.split(sep, 1)\<close>.
\<close>

function split :: "ustring \<Rightarrow> ustring \<Rightarrow> ustring list" where
  "split s sep =
     (case find_str sep s of
        None \<Rightarrow> [s]
      | Some i \<Rightarrow>
          if sep = [] then [s]
          else take i s # split (drop (i + length sep) s) sep)"
  by pat_completeness auto

termination
proof (relation "measure (\<lambda>(s, sep). length s)")
  show "wf (measure (\<lambda>(s, sep). length s))" by simp
next
  fix s sep :: ustring and i
  assume "find_str sep s = Some i" "sep \<noteq> []"
  then show "((drop (i + length sep) s, sep), (s, sep)) \<in> measure (\<lambda>(s, sep). length s)"
    using find_str_bound [of sep s i] by (cases sep) auto
qed

definition split1 :: "ustring \<Rightarrow> ustring \<Rightarrow> ustring list" where
  "split1 s sep =
     (case find_str sep s of
        None \<Rightarrow> [s]
      | Some i \<Rightarrow> [take i s, drop (i + length sep) s])"

function replace :: "ustring \<Rightarrow> ustring \<Rightarrow> ustring \<Rightarrow> ustring" where
  "replace s old new =
     (case find_str old s of
        None \<Rightarrow> s
      | Some i \<Rightarrow>
          if old = [] then s
          else take i s @ new @ replace (drop (i + length old) s) old new)"
  by pat_completeness auto

termination
proof (relation "measure (\<lambda>(s, old, new). length s)")
  show "wf (measure (\<lambda>(s, old, new). length s))" by simp
next
  fix s old new :: ustring and i
  assume "find_str old s = Some i" "old \<noteq> []"
  then show "((drop (i + length old) s, old, new), (s, old, new)) \<in> measure (\<lambda>(s, old, new). length s)"
    using find_str_bound [of old s i] by (cases old) auto
qed

text \<open>Both equations unfold themselves; they are applied on demand.\<close>

declare split.simps [simp del] replace.simps [simp del]

subsection \<open>\<open>int\<close> and \<open>str\<close> of an integer\<close>

text \<open>
  \<^verbatim>\<open>int(s)\<close> in base ten: whitespace on both sides is skipped, then an optional
  sign, then a run of decimal digits in which single underscores may separate digits;
  anything else raises \<open>ValueError\<close>. The whitespace \<open>int\<close> skips is that of
  \<open>strip\<close> without the four ASCII separators U+001C to U+001F. The interpreter's
  optional limit on the number of digits (4300 by default since CPython 3.11) is not
  part of the model.
\<close>

definition int_isspace :: "nat \<Rightarrow> bool" where
  "int_isspace c \<longleftrightarrow> c \<in> set [9, 10, 11, 12, 13, 32] \<or> (127 \<le> c \<and> isspace c)"

definition int_run :: "nat \<Rightarrow> bool" where
  "int_run c \<longleftrightarrow> isdigit c \<or> c = 95"

fun doubled_underscore :: "ustring \<Rightarrow> bool" where
  "doubled_underscore (a # b # cs) = ((a = 95 \<and> b = 95) \<or> doubled_underscore (b # cs))"
| "doubled_underscore cs = False"

fun digits_value :: "nat \<Rightarrow> ustring \<Rightarrow> nat" where
  "digits_value acc [] = acc"
| "digits_value acc (c # cs) =
     (case decimal c of
        None \<Rightarrow> digits_value acc cs
      | Some d \<Rightarrow> digits_value (acc * 10 + d) cs)"

definition py_int :: "ustring \<Rightarrow> error + int" where
  "py_int s =
     (let s1 = dropWhile int_isspace s;
          negative = (s1 \<noteq> [] \<and> hd s1 = 45);
          s2 = (if s1 \<noteq> [] \<and> (hd s1 = 45 \<or> hd s1 = 43) then tl s1 else s1);
          run = takeWhile int_run s2;
          rest = dropWhile int_run s2
      in if run = [] \<or> hd run = 95 \<or> last run = 95 \<or> doubled_underscore run
            \<or> \<not> list_all int_isspace rest
         then Inl ValueError
         else Inr (if negative then - int (digits_value 0 run) else int (digits_value 0 run)))"

text \<open>\<^verbatim>\<open>str(n)\<close>, which the f-string of the page address applies to the day.\<close>

function str_nat :: "nat \<Rightarrow> ustring" where
  "str_nat n = (if n < 10 then [48 + n] else str_nat (n div 10) @ [48 + n mod 10])"
  by pat_completeness auto

termination
  by (relation "measure id") auto

declare str_nat.simps [simp del]

definition str_int :: "int \<Rightarrow> ustring" where
  "str_int i = (if i < 0 then 45 # str_nat (nat (- i)) else str_nat (nat i))"

subsection \<open>Regular expressions\<close>

text \<open>
  The two patterns of the source use literals, \<^verbatim>\<open>\d\<close>, character sets,
  concatenation, \<^verbatim>\<open>*\<close>, \<^verbatim>\<open>+\<close> and groups; \<open>Opt\<close> (\<^verbatim>\<open>?\<close>) is there
  for the pattern the specification states. \<open>mt r s g\<close> lists, in the order in which
  the backtracking matcher of \<open>re\<close> tries them, the ways \<open>r\<close> matches at the start of
  \<open>s\<close>: the rest of the input after each match with the groups captured so far. A
  repetition is greedy: it tries one more round before it stops, and a round that
  consumes nothing ends it. \<open>re.match\<close> takes the first way at the start of the text
  (the anchor \<^verbatim>\<open>^\<close> of \<open>EVENT_RE\<close> holds there by itself), \<open>re.search\<close> the
  first way at the leftmost position that has one.
\<close>

type_synonym groups = "nat \<Rightarrow> ustring option"

datatype re =
    Lit ustring
  | Digit
  | OneOf ustring
  | Seq re re
  | Star re
  | Opt re
  | Group nat re

fun mt :: "re \<Rightarrow> ustring \<Rightarrow> groups \<Rightarrow> (ustring \<times> groups) list" where
  "mt (Lit w) s g = (if prefix w s then [(drop (length w) s, g)] else [])"
| "mt Digit s g = (case s of [] \<Rightarrow> [] | c # r \<Rightarrow> if isdigit c then [(r, g)] else [])"
| "mt (OneOf cs) s g = (case s of [] \<Rightarrow> [] | c # r \<Rightarrow> if c \<in> set cs then [(r, g)] else [])"
| "mt (Seq a b) s g = concat (map (\<lambda>p. mt b (fst p) (snd p)) (mt a s g))"
| "mt (Star a) s g =
     concat (map (\<lambda>p. if length (fst p) < length s then mt (Star a) (fst p) (snd p) else [])
               (mt a s g))
     @ [(s, g)]"
| "mt (Opt a) s g = mt a s g @ [(s, g)]"
| "mt (Group n a) s g =
     map (\<lambda>p. (fst p, (snd p)(n \<mapsto> take (length s - length (fst p)) s))) (mt a s g)"

text \<open>The equation of the repetition unfolds itself; it is applied on demand.\<close>

lemmas mt_Star = mt.simps(5)

declare mt.simps(5) [simp del]

definition Plus :: "re \<Rightarrow> re" where
  "Plus a = Seq a (Star a)"

fun seqs :: "re list \<Rightarrow> re" where
  "seqs [] = Lit []"
| "seqs [r] = r"
| "seqs (r # rs) = Seq r (seqs rs)"

definition re_match :: "re \<Rightarrow> ustring \<Rightarrow> groups option" where
  "re_match r s = (case mt r s Map.empty of [] \<Rightarrow> None | p # _ \<Rightarrow> Some (snd p))"

fun re_search :: "re \<Rightarrow> ustring \<Rightarrow> groups option" where
  "re_search r [] = re_match r []"
| "re_search r (c # cs) =
     (case re_match r (c # cs) of Some g \<Rightarrow> Some g | None \<Rightarrow> re_search r cs)"

section \<open>The markup tree\<close>

text \<open>
  The nodes of a parsed page, as the markup library hands them to the source: a string,
  or a tag with its name, its attributes and its children. An attribute value is a string
  or, for the multi-valued attributes, a list of strings. \<open>get_text\<close> is the property
  \<^verbatim>\<open>.text\<close>; \<open>decompose_all n\<close> is \<^verbatim>\<open>find_all(n)\<close> followed by
  \<^verbatim>\<open>decompose()\<close> on every tag found (the descendants named \<open>n\<close> are removed);
  \<open>select n\<close> is \<^verbatim>\<open>select(n)\<close> for a tag name: the descendants named \<open>n\<close> in
  document order.
\<close>

datatype attr_value = AStr ustring | AList "ustring list"

datatype node = NavigableString ustring | Tag ustring "(ustring \<times> attr_value) list" "node list"

fun is_tag :: "ustring \<Rightarrow> node \<Rightarrow> bool" where
  "is_tag n (NavigableString s) = False"
| "is_tag n (Tag name attrs contents) = (name = n)"

fun get_text :: "node \<Rightarrow> ustring" where
  "get_text (NavigableString s) = s"
| "get_text (Tag name attrs contents) = concat (map get_text contents)"

fun decompose_all :: "ustring \<Rightarrow> node \<Rightarrow> node" where
  "decompose_all n (NavigableString s) = NavigableString s"
| "decompose_all n (Tag name attrs contents) =
     Tag name attrs (map (decompose_all n) (filter (\<lambda>c. \<not> is_tag n c) contents))"

fun select :: "ustring \<Rightarrow> node \<Rightarrow> node list" where
  "select n (NavigableString s) = []"
| "select n (Tag name attrs contents) =
     concat (map (\<lambda>c. (if is_tag n c then [c] else []) @ select n c) contents)"

section \<open>The world outside the source file\<close>

text \<open>
  The requests made so far are the state: a list of addresses, the last request last.
  What a request returns may depend on the requests before it.

  \<^item> \<open>page_items reqs url\<close> stands for lines 50 to 62 of the source: the request for the
    day page, its parsing, the removal of everything from the heading \<open>Births\<close> on, and
    \<^verbatim>\<open>select('.mw-parser-output ul li')\<close>. It is the list of list items, each with
    its subtree, or the exception raised on the way. The items are taken as separate
    trees: a list item inside a \<open>sup\<close> element of another list item, which the
    removal of citations from the outer item would destroy, is not modelled.
  \<^item> \<open>api reqs url\<close> is \<^verbatim>\<open>request.urlopen(url)\<close> on the secondary endpoint: an
    exception, or a response with its status and with what
    \<^verbatim>\<open>json.loads(response.read())['source']\<close> yields for it, a text or an exception.
  \<^item> \<open>decode_contents\<close> is the serialiser of the markup library.
\<close>

datatype response = Raises error | Response int "error + ustring"

record env =
  page_items :: "ustring list \<Rightarrow> ustring \<Rightarrow> error + node list"
  api :: "ustring list \<Rightarrow> ustring \<Rightarrow> response"
  decode_contents :: "node \<Rightarrow> ustring"

section \<open>The source, bottom up\<close>

subsection \<open>\<open>deg_to_dec\<close> (lines 180 to 195)\<close>

text \<open>
  \<open>deg_to_dec\<close> computes with Python floats. The model computes with exact rationals:
  \<open>/\<close> is exact division and \<open>round(x, 4)\<close> is rounding of the exact value to a multiple
  of \<open>1/10000\<close>, ties to the even multiple, which is the rule \<open>round\<close> applies to the
  value it is given. The binary representation error of a double (a relative
  \<open>2\<^sup>-\<^sup>5\<^sup>3\<close> per operation) and overflow beyond the range of a double are not
  part of the model.
\<close>

definition round_half_even :: "rat \<Rightarrow> int" where
  "round_half_even x =
     (let f = \<lfloor>x\<rfloor>; r = x - of_int f
      in if r < 1 / 2 then f
         else if 1 / 2 < r then f + 1
         else if even f then f else f + 1)"

definition py_round :: "rat \<Rightarrow> nat \<Rightarrow> rat" where
  "py_round x ndigits = of_int (round_half_even (x * 10 ^ ndigits)) / 10 ^ ndigits"

definition deg_to_dec :: "int \<Rightarrow> int \<Rightarrow> int \<Rightarrow> ustring \<Rightarrow> rat" where
  "deg_to_dec degrees minutes seconds hemisphere =
     (let dec = py_round (of_int degrees + (of_int minutes / 60) + (of_int seconds / 3600)) 4
      in if hemisphere \<in> set [ustr ''S'', ustr ''W''] then dec * (- 1) else dec)"

subsection \<open>\<open>COORD_RE\<close>, \<open>Coordinates\<close>, \<open>get_wikilink_coordinates\<close> (lines 127 to 178)\<close>

definition WIKI_API :: ustring where
  "WIKI_API = ustr ''https://en.wikipedia.org/w/rest.php/v1/page/''"

text \<open>
  \<^verbatim>\<open>COORD_RE = re.compile(r'coord\|(\d+\|\d+\|\d+\|[N|S])\|(\d+\|\d+\|\d+\|[E|W])')\<close>.
  Inside the brackets the bar is a character like the letters: the set \<^verbatim>\<open>[N|S]\<close>
  has the three members \<open>N\<close>, \<open>|\<close> and \<open>S\<close>.
\<close>

definition COORD_RE :: re where
  "COORD_RE =
     seqs [Lit (ustr ''coord|''),
           Group 1 (seqs [Plus Digit, Lit (ustr ''|''), Plus Digit, Lit (ustr ''|''),
                          Plus Digit, Lit (ustr ''|''), OneOf (ustr ''N|S'')]),
           Lit (ustr ''|''),
           Group 2 (seqs [Plus Digit, Lit (ustr ''|''), Plus Digit, Lit (ustr ''|''),
                          Plus Digit, Lit (ustr ''|''), OneOf (ustr ''E|W'')])]"

record Coordinates =
  latitude :: rat
  longitude :: rat

text \<open>
  \<^verbatim>\<open>deg_to_dec(int(p[0]), int(p[1]), int(p[2]), p[3])\<close> for the parts \<open>p\<close> of a
  group, the arguments evaluated from left to right.
\<close>

definition dms_to_dec :: "ustring list \<Rightarrow> error + rat" where
  "dms_to_dec parts =
     and_then (index parts 0) (\<lambda>p0. and_then (py_int p0) (\<lambda>degrees.
     and_then (index parts 1) (\<lambda>p1. and_then (py_int p1) (\<lambda>minutes.
     and_then (index parts 2) (\<lambda>p2. and_then (py_int p2) (\<lambda>seconds.
     and_then (index parts 3) (\<lambda>hemisphere.
     Inr (deg_to_dec degrees minutes seconds hemisphere))))))))"

text \<open>
  Lines 167 to 178, the decoding of the coordinate directive in the source text of a
  page: \<open>Inr None\<close> is the return value \<open>None\<close>.
\<close>

definition source_coordinates :: "ustring \<Rightarrow> error + Coordinates option" where
  "source_coordinates data =
     (case re_search COORD_RE data of
        None \<Rightarrow> Inr None
      | Some coordinates \<Rightarrow>
          (case (coordinates 1, coordinates 2) of
             (Some g1, Some g2) \<Rightarrow>
               (let latitude = split g1 (ustr ''|'');
                    longitude = split g2 (ustr ''|'')
                in and_then (dms_to_dec latitude) (\<lambda>lat.
                   and_then (dms_to_dec longitude) (\<lambda>lon.
                   Inr (Some \<lparr>latitude = lat, longitude = lon\<rparr>))))
           | _ \<Rightarrow> Inl AttributeError))"

text \<open>
  The result is the value returned or the exception raised, with the requests made.
  \<^verbatim>\<open>ref['href']\<close> raises \<open>KeyError\<close> on a tag without that attribute.
  \<open>urlopen\<close> never returns \<open>None\<close>, so of the test in line 163 the status remains.
\<close>

fun get_wikilink_coordinates ::
  "env \<Rightarrow> node \<Rightarrow> ustring list \<Rightarrow> (error + Coordinates option) \<times> ustring list" where
  "get_wikilink_coordinates E (NavigableString s) reqs = (Inl TypeError, reqs)"
| "get_wikilink_coordinates E (Tag name attrs contents) reqs =
     (case map_of attrs (ustr ''href'') of
        None \<Rightarrow> (Inl KeyError, reqs)
      | Some href \<Rightarrow>
          (let page_url = (case href of AStr s \<Rightarrow> s | AList l \<Rightarrow> (if l \<noteq> [] then hd l else []))
           in if \<not> contains (ustr ''wiki/'') page_url then (Inr None, reqs)
              else
                (let page_title = last (split page_url (ustr ''wiki/''));
                     url = WIKI_API @ page_title
                 in case api E reqs url of
                      Raises e \<Rightarrow>
                        if e = HTTPError then (Inr None, reqs @ [url]) else (Inl e, reqs @ [url])
                    | Response status body \<Rightarrow>
                        if status \<noteq> 200 then (Inr None, reqs @ [url])
                        else (and_then body source_coordinates, reqs @ [url]))))"

subsection \<open>\<open>EVENT_RE\<close>, \<open>Event\<close>, \<open>get_events_with_locations\<close> (lines 25 to 33 and 85 to 125)\<close>

text \<open>\<^verbatim>\<open>EVENT_RE = re.compile(r'^(\d+)( BC)* \u2013')\<close>.\<close>

definition EVENT_RE :: re where
  "EVENT_RE = seqs [Group 1 (Plus Digit), Star (Group 2 (Lit (ustr '' BC''))), Lit [32, en_dash]]"

text \<open>
  \<open>Event\<close> is a \<open>TypedDict\<close> whose keys may be absent. The events of one list item
  have no month and no day yet; the other four keys are always set.
\<close>

record Event = Coordinates +
  year :: int
  description :: ustring
  month :: "ustring option"
  day :: "int option"

text \<open>Lines 92 to 100: the year of a list item, from its text.\<close>

definition parse_year :: "ustring \<Rightarrow> error + int" where
  "parse_year txt =
     (case split1 txt dash_sep of
        [yr, rest] \<Rightarrow>
          (let yr = strip yr
           in if contains (ustr ''BC'') yr
              then and_then (py_int (replace yr (ustr '' BC'') [])) (\<lambda>y. Inr (- y))
              else py_int yr)
      | _ \<Rightarrow> Inl ValueError)"

text \<open>Lines 110 to 125, the loop over the links of a list item.\<close>

fun links_loop ::
  "env \<Rightarrow> int \<Rightarrow> ustring \<Rightarrow> node list \<Rightarrow> nat \<Rightarrow> Event list \<Rightarrow> ustring list
     \<Rightarrow> (error + nat \<times> Event list) \<times> ustring list" where
  "links_loop E yr descr [] total_wiki_calls events reqs = (Inr (total_wiki_calls, events), reqs)"
| "links_loop E yr descr (link # links) total_wiki_calls events reqs =
     (case get_wikilink_coordinates E link reqs of
        (Inl e, reqs') \<Rightarrow> (Inl e, reqs')
      | (Inr coordinates, reqs') \<Rightarrow>
          links_loop E yr descr links (total_wiki_calls + 1)
            (case coordinates of
               None \<Rightarrow> events
             | Some c \<Rightarrow>
                 events @ [\<lparr>latitude = latitude c, longitude = longitude c, year = yr,
                            description = descr, month = None, day = None\<rparr>])
            reqs')"

text \<open>
  The pattern of \<open>re.sub\<close> in line 105 has no special character, so the substitution
  is a \<open>replace\<close>; code point 34 is the double quote.
\<close>

definition get_events_with_locations ::
  "env \<Rightarrow> node \<Rightarrow> ustring list \<Rightarrow> (error + nat \<times> Event list) \<times> ustring list" where
  "get_events_with_locations E event_tag reqs =
     (case parse_year (get_text event_tag) of
        Inl e \<Rightarrow> (Inl e, reqs)
      | Inr yr \<Rightarrow>
          (case index (split1 (decode_contents E event_tag) dash_sep) 1 of
             Inl e \<Rightarrow> (Inl e, reqs)
           | Inr descr \<Rightarrow>
               (let descr = replace descr (ustr ''href='' @ [34] @ ustr ''/wiki/'')
                              (ustr ''href='' @ [34] @ ustr ''https://en.wikipedia.org/wiki/'')
                in links_loop E yr descr (select (ustr ''a'') event_tag) 0 [] reqs)))"

subsection \<open>\<open>get_events_on_day\<close> (lines 35 to 83)\<close>

text \<open>The filter of line 63.\<close>

definition event_item :: "node \<Rightarrow> bool" where
  "event_item x \<longleftrightarrow> re_match EVENT_RE (get_text x) \<noteq> None"

text \<open>Lines 67 to 81, the loop over the event items.\<close>

fun items_loop ::
  "env \<Rightarrow> ustring \<Rightarrow> int \<Rightarrow> node list \<Rightarrow> nat \<Rightarrow> Event list \<Rightarrow> ustring list
     \<Rightarrow> (error + nat \<times> Event list) \<times> ustring list" where
  "items_loop E month' day' [] total_wiki_calls events_on_day reqs =
     (Inr (total_wiki_calls, events_on_day), reqs)"
| "items_loop E month' day' (list_item # event_items) total_wiki_calls events_on_day reqs =
     (case get_events_with_locations E (decompose_all (ustr ''sup'') list_item) reqs of
        (Inl e, reqs') \<Rightarrow> (Inl e, reqs')
      | (Inr (wiki_calls, events), reqs') \<Rightarrow>
          items_loop E month' day' event_items (total_wiki_calls + wiki_calls)
            (events_on_day @ map (\<lambda>x. x\<lparr>month := Some month', day := Some day'\<rparr>) events)
            reqs')"

text \<open>The address of line 49, \<^verbatim>\<open>f'https://en.wikipedia.org/wiki/{month}_{day}'\<close>.\<close>

definition day_url :: "ustring \<Rightarrow> int \<Rightarrow> ustring" where
  "day_url month' day' = ustr ''https://en.wikipedia.org/wiki/'' @ month' @ ustr ''_'' @ str_int day'"

definition get_events_on_day ::
  "env \<Rightarrow> ustring \<Rightarrow> int \<Rightarrow> ustring list \<Rightarrow> (error + nat \<times> Event list) \<times> ustring list" where
  "get_events_on_day E month' day' reqs =
     (let url = day_url month' day'
      in case page_items E reqs url of
           Inl e \<Rightarrow> (Inl e, reqs @ [url])
         | Inr all_list_items \<Rightarrow>
             items_loop E month' day' (filter event_item all_list_items) 1 [] (reqs @ [url]))"

section \<open>The wording of the specification\<close>

text \<open>
  The embedded links of an entry: the \<open>a\<close> elements of the list item once its
  citations (the \<open>sup\<close> elements) are removed, as the entry parser sees them.
\<close>

definition links_of :: "node \<Rightarrow> node list" where
  "links_of list_item = select (ustr ''a'') (decompose_all (ustr ''sup'') list_item)"

text \<open>
  The specification's wording of the conversion: the exact sum, rounded to four decimal
  places in the everyday sense (the nearest multiple of \<open>1/10000\<close>, a tie going up).
\<close>

definition spec_round4 :: "rat \<Rightarrow> rat" where
  "spec_round4 x = of_int \<lfloor>x * 10000 + 1 / 2\<rfloor> / 10000"

definition spec_dms :: "int \<Rightarrow> int \<Rightarrow> int \<Rightarrow> rat" where
  "spec_dms d m s = of_int d + of_int m / 60 + of_int s / 3600"

text \<open>
  What a pattern matches, apart from the order in which a matcher tries: the set of the
  texts it matches in full. \<open>star A\<close> holds the concatenations of members of \<open>A\<close>.
\<close>

inductive_set star :: "ustring set \<Rightarrow> ustring set" for A :: "ustring set" where
  star_empty: "[] \<in> star A"
| star_round: "u \<in> A \<Longrightarrow> v \<in> star A \<Longrightarrow> u @ v \<in> star A"

fun lang :: "re \<Rightarrow> ustring set" where
  "lang (Lit w) = {w}"
| "lang Digit = {[c] | c. isdigit c}"
| "lang (OneOf cs) = {[c] | c. c \<in> set cs}"
| "lang (Seq a b) = {u @ v | u v. u \<in> lang a \<and> v \<in> lang b}"
| "lang (Star a) = star (lang a)"
| "lang (Opt a) = insert [] (lang a)"
| "lang (Group n a) = lang a"

text \<open>
  \<open>digits\<close>: one or more digits. \<open>repeated k w\<close>: \<open>w\<close> written \<open>k\<close> times.
  \<open>spec_EVENT_RE\<close> is the pattern the specification states for the classifier,
  \<^verbatim>\<open>^\d+( BC)? \u2013 \<close>: one or more digits, at most one \<open>BC\<close>, and the dash with
  a space on each side.
\<close>

definition digits :: "ustring \<Rightarrow> bool" where
  "digits ds \<longleftrightarrow> ds \<noteq> [] \<and> list_all isdigit ds"

definition repeated :: "nat \<Rightarrow> ustring \<Rightarrow> ustring" where
  "repeated k w = concat (replicate k w)"

definition spec_EVENT_RE :: re where
  "spec_EVENT_RE = seqs [Plus Digit, Opt (Lit (ustr '' BC'')), Lit dash_sep]"

definition spec_event_item :: "node \<Rightarrow> bool" where
  "spec_event_item x \<longleftrightarrow> re_match spec_EVENT_RE (get_text x) \<noteq> None"



text \<open>The marker of an internal content page in a link target.\<close>

definition wiki :: ustring where
  "wiki = ustr ''wiki/''"

section \<open>A sample page\<close>

text \<open>
  A small world on which the theorems are instantiated: a day page with three list
  items, an endpoint that knows one place, and a plain serialiser for the markup.
\<close>

fun render :: "node \<Rightarrow> ustring" where
  "render (NavigableString s) = s"
| "render (Tag name attrs contents) =
     ustr ''<'' @ name
     @ concat (map (\<lambda>(k, v). ustr '' '' @ k @ ustr ''='' @ [34]
                               @ (case v of AStr s \<Rightarrow> s | AList l \<Rightarrow> concat l) @ [34]) attrs)
     @ ustr ''>'' @ concat (map render contents) @ ustr ''</'' @ name @ ustr ''>''"

fun inner_html :: "node \<Rightarrow> ustring" where
  "inner_html (NavigableString s) = s"
| "inner_html (Tag name attrs contents) = concat (map render contents)"

definition li_1776 :: node where
  "li_1776 =
     Tag (ustr ''li'') []
       [NavigableString (ustr ''1776'' @ dash_sep @ ustr ''Congress meets in ''),
        Tag (ustr ''a'') [(ustr ''href'', AStr (ustr ''/wiki/Philadelphia''))]
          [NavigableString (ustr ''Philadelphia'')],
        NavigableString (ustr ''.''),
        Tag (ustr ''sup'') []
          [Tag (ustr ''a'') [(ustr ''href'', AStr (ustr ''#cite_note-1''))]
             [NavigableString (ustr ''[1]'')]]]"

definition li_burke :: node where
  "li_burke = Tag (ustr ''li'') [] [NavigableString (ustr ''Edmund Burke is born.'')]"

definition li_44bc :: node where
  "li_44bc =
     Tag (ustr ''li'') []
       [NavigableString (ustr ''44 BC'' @ dash_sep),
        Tag (ustr ''a'') [(ustr ''href'', AStr (ustr ''https://example.org/caesar''))]
          [NavigableString (ustr ''Caesar'')],
        NavigableString (ustr '' dies in ''),
        Tag (ustr ''a'') [(ustr ''href'', AStr (ustr ''/wiki/Rome''))]
          [NavigableString (ustr ''Rome'')]]"

definition sample_env :: env where
  "sample_env =
     \<lparr>page_items = (\<lambda>reqs url. Inr [li_1776, li_burke, li_44bc]),
      api = (\<lambda>reqs url.
               if url = WIKI_API @ ustr ''Philadelphia''
               then Response 200 (Inr (ustr ''{{coord|39|57|10|N|75|9|49|W}}''))
               else Raises HTTPError),
      decode_contents = inner_html\<rparr>"

text \<open>
  Three more worlds: a list item whose link is an anchor without \<open>href\<close>, an endpoint
  whose directive lies outside the globe, and a list item with a citation between the
  year and its \<open>BC\<close>.
\<close>

definition li_anchor :: node where
  "li_anchor =
     Tag (ustr ''li'') []
       [NavigableString (ustr ''1776'' @ dash_sep @ ustr ''Congress meets''),
        Tag (ustr ''a'') [(ustr ''name'', AStr (ustr ''top''))] [],
        NavigableString (ustr ''.'')]"

definition anchor_env :: env where
  "anchor_env = sample_env\<lparr>page_items := (\<lambda>reqs url. Inr [li_anchor])\<rparr>"

definition far_env :: env where
  "far_env =
     sample_env\<lparr>api := (\<lambda>reqs url. Response 200 (Inr (ustr ''{{coord|91|0|0|N|200|0|0|E}}'')))\<rparr>"

definition li_44_cited :: node where
  "li_44_cited =
     Tag (ustr ''li'') []
       [NavigableString (ustr ''44''),
        Tag (ustr ''sup'') [] [NavigableString (ustr '' '')],
        NavigableString (ustr ''BC'' @ dash_sep @ ustr ''Caesar dies.'')]"

text \<open>Two list items for the classifier.\<close>

definition li_bc_bc :: node where
  "li_bc_bc = Tag (ustr ''li'') [] [NavigableString (ustr ''12 BC BC'' @ dash_sep @ ustr ''A comet is seen.'')]"

definition li_independence :: node where
  "li_independence =
     Tag (ustr ''li'') []
       [NavigableString (ustr ''1776'' @ dash_sep @ ustr ''The United States declares independence.'')]"

section \<open>Properties of the conversion\<close>

lemma round_half_even_no_tie:
  assumes "x - of_int \<lfloor>x\<rfloor> \<noteq> 1 / 2"
  shows "round_half_even x = \<lfloor>x + 1 / 2\<rfloor>"
proof -
  let ?f = "\<lfloor>x\<rfloor>"
  have lo: "of_int ?f \<le> x" and hi: "x < of_int ?f + 1"
    by linarith+
  show ?thesis
  proof (cases "x - of_int ?f < 1 / 2")
    case True
    have "of_int ?f \<le> x + 1 / 2" "x + 1 / 2 < of_int ?f + 1"
      using lo True by linarith+
    then have "\<lfloor>x + 1 / 2\<rfloor> = ?f"
      by (rule floor_unique)
    with True show ?thesis
      by (simp add: round_half_even_def Let_def)
  next
    case False
    with assms have gt: "1 / 2 < x - of_int ?f"
      by linarith
    have "of_int (?f + 1) \<le> x + 1 / 2" "x + 1 / 2 < of_int (?f + 1) + 1"
      using hi gt by simp_all
    then have "\<lfloor>x + 1 / 2\<rfloor> = ?f + 1"
      by (rule floor_unique)
    with gt False show ?thesis
      by (simp add: round_half_even_def Let_def)
  qed
qed

lemma even_not_nine_odd: "(2::int) * a \<noteq> 9 * (2 * b + 1)"
  by presburger

lemma dms_scaled: "spec_dms d m s * 10000 = of_int (25 * (3600 * d + 60 * m + s)) / 9"
  by (simp add: spec_dms_def field_simps)

lemma dms_no_tie:
  "spec_dms d m s * 10000 - of_int \<lfloor>spec_dms d m s * 10000\<rfloor> \<noteq> 1 / 2"
proof
  let ?n = "25 * (3600 * d + 60 * m + s)"
  let ?f = "\<lfloor>spec_dms d m s * 10000\<rfloor>"
  assume "spec_dms d m s * 10000 - of_int ?f = 1 / 2"
  then have "(of_int ?n :: rat) / 9 - of_int ?f = 1 / 2"
    by (simp only: dms_scaled)
  then have "(of_int (2 * ?n) :: rat) = of_int (9 * (2 * ?f + 1))"
    by (simp add: field_simps)
  then have "2 * ?n = 9 * (2 * ?f + 1)"
    by (simp only: of_int_eq_iff)
  then show False
    using even_not_nine_odd [of ?n ?f] by simp
qed

lemma py_round_dms: "py_round (spec_dms d m s) 4 = spec_round4 (spec_dms d m s)"
proof -
  have "round_half_even (spec_dms d m s * 10000) = \<lfloor>spec_dms d m s * 10000 + 1 / 2\<rfloor>"
    by (rule round_half_even_no_tie) (rule dms_no_tie)
  then show ?thesis
    by (simp add: py_round_def spec_round4_def)
qed




lemma deg_to_dec_unsigned:
  "h \<notin> set [ustr ''S'', ustr ''W''] \<Longrightarrow> deg_to_dec d m s h = spec_round4 (spec_dms d m s)"
  using py_round_dms [of d m s] by (simp add: deg_to_dec_def Let_def spec_dms_def)

lemma deg_to_dec_negated:
  "h \<in> set [ustr ''S'', ustr ''W''] \<Longrightarrow> deg_to_dec d m s h = - spec_round4 (spec_dms d m s)"
  using py_round_dms [of d m s] by (simp add: deg_to_dec_def Let_def spec_dms_def)




section \<open>Evaluation\<close>

lemma decimal_ascii:
  "c < 128 \<Longrightarrow> decimal c = (if 48 \<le> c \<and> c \<le> 57 then Some (c - 48) else None)"
  by (simp add: decimal_def decimal_zeros_def)

lemma decimal_en_dash: "decimal 8211 = None"
  by (simp add: decimal_def decimal_zeros_def)

lemma spec_round4_dms_div:
  "spec_round4 (spec_dms d m s) = of_int ((50 * (3600 * d + 60 * m + s) + 9) div 18) / 10000"
proof -
  have "spec_dms d m s * 10000 + 1 / 2 = of_int (50 * (3600 * d + 60 * m + s) + 9) / of_int 18"
    by (simp add: spec_dms_def field_simps)
  then have "\<lfloor>spec_dms d m s * 10000 + 1 / 2\<rfloor> = (50 * (3600 * d + 60 * m + s) + 9) div 18"
    by (simp only: floor_divide_of_int_eq)
  then show ?thesis
    by (simp add: spec_round4_def)
qed

lemma deg_to_dec_eval:
  "deg_to_dec d m s h =
     (if h = ustr ''S'' \<or> h = ustr ''W''
      then - (of_int ((50 * (3600 * d + 60 * m + s) + 9) div 18) / 10000)
      else of_int ((50 * (3600 * d + 60 * m + s) + 9) div 18) / 10000)"
  using deg_to_dec_unsigned [of h d m s] deg_to_dec_negated [of h d m s]
  by (auto simp add: spec_round4_dms_div)

lemmas eval_simps =
  ustr_def dash_sep_def en_dash_def decimal_ascii decimal_en_dash isdigit_def isspace_def
  int_isspace_def int_run_def py_int_def Let_def strip_def contains_def split1_def and_then_def
  index_def re_match_def EVENT_RE_def COORD_RE_def Plus_def event_item_def
  parse_year_def get_events_with_locations_def get_events_on_day_def source_coordinates_def
  dms_to_dec_def WIKI_API_def str_int_def day_url_def deg_to_dec_eval mt_Star
  split.simps replace.simps str_nat.simps

lemmas sample_simps =
  sample_env_def li_1776_def li_burke_def li_44bc_def li_anchor_def anchor_env_def far_env_def
  li_44_cited_def

section \<open>The count of network calls\<close>

lemma links_loop_count:
  "links_loop E yr descr links tot events reqs = (Inr (n, evs), reqs') \<Longrightarrow> n = tot + length links"
proof (induction links arbitrary: tot events reqs)
  case Nil
  then show ?case by simp
next
  case (Cons link links)
  obtain r reqs1 where step: "get_wikilink_coordinates E link reqs = (r, reqs1)"
    by (cases "get_wikilink_coordinates E link reqs")
  show ?case
  proof (cases r)
    case (Inl e)
    with Cons.prems step show ?thesis by simp
  next
    case (Inr coordinates)
    with Cons.prems step have "n = (tot + 1) + length links"
      by (auto dest: Cons.IH)
    then show ?thesis by simp
  qed
qed

lemma get_events_with_locations_count:
  "get_events_with_locations E event_tag reqs = (Inr (n, evs), reqs') \<Longrightarrow>
     n = length (select (ustr ''a'') event_tag)"
  by (auto simp add: get_events_with_locations_def Let_def split: sum.splits dest: links_loop_count)

lemma items_loop_count:
  "items_loop E month' day' event_items tot events_on_day reqs = (Inr (n, evs), reqs') \<Longrightarrow>
     n = tot + sum_list (map (\<lambda>x. length (links_of x)) event_items)"
proof (induction event_items arbitrary: tot events_on_day reqs)
  case Nil
  then show ?case by simp
next
  case (Cons list_item event_items)
  obtain r reqs1 where step:
    "get_events_with_locations E (decompose_all (ustr ''sup'') list_item) reqs = (r, reqs1)"
    by (cases "get_events_with_locations E (decompose_all (ustr ''sup'') list_item) reqs")
  show ?case
  proof (cases r)
    case (Inl e)
    with Cons.prems step show ?thesis by simp
  next
    case (Inr res)
    obtain wiki_calls events where res: "res = (wiki_calls, events)"
      by (cases res)
    from step Inr res have "wiki_calls = length (links_of list_item)"
      by (simp add: links_of_def get_events_with_locations_count)
    moreover from Cons.prems step Inr res
    have "n = (tot + wiki_calls) + sum_list (map (\<lambda>x. length (links_of x)) event_items)"
      by (auto dest: Cons.IH)
    ultimately show ?thesis by simp
  qed
qed

text \<open>
  C2. When \<open>get_events_on_day\<close> returns, the count it returns is 1, for the day page,
  plus the number of embedded links of all qualifying entries: every link adds exactly
  one, whatever its resolution gives (coordinates, an HTTP error, no directive, or no
  request at all), and an entry without links adds nothing.
\<close>

theorem get_events_on_day_call_count:
  assumes "get_events_on_day E month' day' reqs = (Inr (n, evs), reqs')"
  shows "\<exists>all_list_items.
           page_items E reqs (day_url month' day') = Inr all_list_items
           \<and> n = 1 + sum_list (map (\<lambda>x. length (links_of x)) (filter event_item all_list_items))"
  using assms
  by (auto simp add: get_events_on_day_def Let_def split: sum.splits dest: items_loop_count)

theorem get_events_on_day_call_count_witness:
  "get_events_on_day sample_env (ustr ''July'') 4 [] =
     (Inr (4, [\<lparr>latitude = 399528 / 10000, longitude = - (751636 / 10000), year = 1776,
        description = ustr ''Congress meets in <a href='' @ [34] @ ustr ''https://en.wikipedia.org/wiki/Philadelphia'' @ [34] @ ustr ''>Philadelphia</a>.'',
        month = Some (ustr ''July''), day = Some 4\<rparr>]),
    [day_url (ustr ''July'') 4, WIKI_API @ ustr ''Philadelphia'', WIKI_API @ ustr ''Rome''])
   \<and> (\<exists>all_list_items.
           page_items sample_env [] (day_url (ustr ''July'') 4) = Inr all_list_items
           \<and> (4::nat) = 1 + sum_list (map (\<lambda>x. length (links_of x)) (filter event_item all_list_items)))"
proof -
  have run: "get_events_on_day sample_env (ustr ''July'') 4 [] =
     (Inr (4, [\<lparr>latitude = 399528 / 10000, longitude = - (751636 / 10000), year = 1776,
        description = ustr ''Congress meets in <a href='' @ [34] @ ustr ''https://en.wikipedia.org/wiki/Philadelphia'' @ [34] @ ustr ''>Philadelphia</a>.'',
        month = Some (ustr ''July''), day = Some 4\<rparr>]),
    [day_url (ustr ''July'') 4, WIKI_API @ ustr ''Philadelphia'', WIKI_API @ ustr ''Rome''])"
    by (simp add: eval_simps sample_simps)
  from get_events_on_day_call_count [OF run] run show ?thesis
    by (intro conjI)
qed

section \<open>Inputs on which the code leaves the specification\<close>

text \<open>
  C5. The decoder is claimed never to match a directive whose hemisphere markers are
  outside \<open>{N, S}\<close> and \<open>{E, W}\<close>. The set \<^verbatim>\<open>[N|S]\<close> of \<open>COORD_RE\<close> contains the
  bar, so in \<^verbatim>\<open>coord|1|2|3|||4|5|6|E\<close> the bar stands for the first hemisphere: the
  search succeeds, the first group is \<^verbatim>\<open>1|2|3||\<close>, its fourth part is empty, and
  coordinates are returned.
\<close>

theorem COORD_RE_bar_as_hemisphere:
  "map_option (\<lambda>g. (g 1, g 2)) (re_search COORD_RE (ustr ''coord|1|2|3|||4|5|6|E''))
     = Some (Some (ustr ''1|2|3||''), Some (ustr ''4|5|6|E''))
   \<and> source_coordinates (ustr ''coord|1|2|3|||4|5|6|E'')
     = Inr (Some \<lparr>latitude = 10342 / 10000, longitude = 40850 / 10000\<rparr>)"
  by (simp add: eval_simps)

text \<open>
  C6. The resolver is claimed to return "no coordinates" for a link without \<open>href\<close>
  and never to abort the day request. On an \<open>a\<close> element without that attribute
  \<^verbatim>\<open>ref['href']\<close> raises \<open>KeyError\<close>, whatever the world, and a day page with such a
  link in a qualifying entry ends in that exception after the one request for the page.
\<close>

theorem get_wikilink_coordinates_missing_href:
  "get_wikilink_coordinates E (Tag (ustr ''a'') [(ustr ''name'', AStr (ustr ''top''))] cs) reqs
     = (Inl KeyError, reqs)
   \<and> event_item li_anchor
   \<and> get_events_on_day anchor_env (ustr ''July'') 4 [] = (Inl KeyError, [day_url (ustr ''July'') 4])"
  by (simp add: eval_simps sample_simps)

section \<open>The regular expression matcher\<close>

lemma mt_sound: "(r, g') \<in> set (mt a s g) \<Longrightarrow> \<exists>w. w \<in> lang a \<and> s = w @ r"
proof (induction a s g arbitrary: r g' rule: mt.induct)
  case (1 w s g)
  then show ?case
    by (auto simp add: prefix_def split: if_splits)
next
  case (2 s g)
  then show ?case
    by (cases s) (auto split: if_splits)
next
  case (3 cs s g)
  then show ?case
    by (cases s) (auto split: if_splits)
next
  case (4 a b s g)
  from "4.prems" obtain p where p: "p \<in> set (mt a s g)" and r: "(r, g') \<in> set (mt b (fst p) (snd p))"
    by auto
  from "4.IH"(1) [of "fst p" "snd p"] p obtain u where u: "u \<in> lang a" "s = u @ fst p"
    by auto
  from "4.IH"(2) [OF p r] obtain v where v: "v \<in> lang b" "fst p = v @ r"
    by auto
  from u v have "u @ v \<in> lang (Seq a b)" "s = (u @ v) @ r"
    by auto
  then show ?case by blast
next
  case (5 a s g)
  show ?case
  proof (cases "(r, g') = (s, g)")
    case True
    then have "[] \<in> lang (Star a)" "s = [] @ r"
      by (auto intro: star_empty)
    then show ?thesis by blast
  next
    case False
    with "5.prems" obtain p where p: "p \<in> set (mt a s g)" and less: "length (fst p) < length s"
      and r: "(r, g') \<in> set (mt (Star a) (fst p) (snd p))"
      unfolding mt_Star [of a s g] by (auto split: if_splits)
    from "5.IH"(1) [of "fst p" "snd p"] p obtain u where u: "u \<in> lang a" "s = u @ fst p"
      by auto
    from "5.IH"(2) [OF p less r] obtain v where v: "v \<in> lang (Star a)" "fst p = v @ r"
      by auto
    from u v have "u @ v \<in> lang (Star a)" "s = (u @ v) @ r"
      by (auto intro: star_round)
    then show ?thesis by blast
  qed
next
  case (6 a s g)
  show ?case
  proof (cases "(r, g') = (s, g)")
    case True
    then have "[] \<in> lang (Opt a)" "s = [] @ r"
      by auto
    then show ?thesis by blast
  next
    case False
    with "6.prems" have "(r, g') \<in> set (mt a s g)"
      by auto
    from "6.IH" [OF this] show ?thesis by auto
  qed
next
  case (7 n a s g)
  from "7.prems" obtain p where p: "p \<in> set (mt a s g)" and r: "r = fst p"
    by auto
  from "7.IH" [of "fst p" "snd p"] p r show ?case
    by auto
qed

lemma mt_star_complete:
  assumes step: "\<And>w r g. w \<in> lang a \<Longrightarrow> \<exists>g'. (r, g') \<in> set (mt a (w @ r) g)"
  shows "w \<in> star (lang a) \<Longrightarrow> \<exists>g'. (r, g') \<in> set (mt (Star a) (w @ r) g)"
proof (induction w arbitrary: g rule: star.induct)
  case star_empty
  have "(r, g) \<in> set (mt (Star a) ([] @ r) g)"
    by (simp add: mt_Star [of a r g])
  then show ?case by blast
next
  case (star_round u v)
  show ?case
  proof (cases "u = []")
    case True
    with star_round.IH [of g] show ?thesis by simp
  next
    case False
    from step [OF star_round.hyps(1), of "v @ r" g]
    obtain g1 where g1: "(v @ r, g1) \<in> set (mt a (u @ v @ r) g)"
      by auto
    from star_round.IH [of g1] obtain g' where g': "(r, g') \<in> set (mt (Star a) (v @ r) g1)"
      by auto
    from False have "length (v @ r) < length (u @ v @ r)"
      by simp
    with g1 g' have "(r, g') \<in> set (mt (Star a) (u @ v @ r) g)"
      unfolding mt_Star [of a "u @ v @ r" g] by force
    then show ?thesis by auto
  qed
qed

lemma mt_complete: "w \<in> lang a \<Longrightarrow> \<exists>g'. (r, g') \<in> set (mt a (w @ r) g)"
proof (induction a arbitrary: w r g)
  case (Lit x)
  then show ?case by auto
next
  case Digit
  then show ?case by auto
next
  case (OneOf cs)
  then show ?case by auto
next
  case (Seq a b)
  from Seq.prems obtain u v where w: "w = u @ v" and u: "u \<in> lang a" and v: "v \<in> lang b"
    by auto
  from Seq.IH(1) [OF u, of "v @ r" g] obtain g1 where g1: "(v @ r, g1) \<in> set (mt a (u @ v @ r) g)"
    by auto
  from Seq.IH(2) [OF v, of r g1] obtain g' where "(r, g') \<in> set (mt b (v @ r) g1)"
    by auto
  with g1 w show ?case by force
next
  case (Star a)
  from Star.prems have "w \<in> star (lang a)"
    by simp
  then show ?case
    by (rule mt_star_complete [rotated]) (rule Star.IH)
next
  case (Opt a)
  then show ?case by (cases "w = []") auto
next
  case (Group n a)
  from Group.prems have "w \<in> lang a" by simp
  from Group.IH [OF this, of r g] show ?case by force
qed

lemma re_match_iff: "re_match a s \<noteq> None \<longleftrightarrow> (\<exists>w r. w \<in> lang a \<and> s = w @ r)"
proof
  assume "re_match a s \<noteq> None"
  then obtain p where "p \<in> set (mt a s Map.empty)"
    by (auto simp add: re_match_def split: list.splits)
  then have "(fst p, snd p) \<in> set (mt a s Map.empty)" by simp
  from mt_sound [OF this] show "\<exists>w r. w \<in> lang a \<and> s = w @ r" by blast
next
  assume "\<exists>w r. w \<in> lang a \<and> s = w @ r"
  then obtain w r where "w \<in> lang a" "s = w @ r" by blast
  with mt_complete [of w a r Map.empty] have "mt a s Map.empty \<noteq> []"
    by auto
  then show "re_match a s \<noteq> None"
    by (auto simp add: re_match_def split: list.splits)
qed

section \<open>The classifier\<close>

lemma star_Digit: "w \<in> star (lang Digit) \<longleftrightarrow> list_all isdigit w"
proof
  show "w \<in> star (lang Digit) \<Longrightarrow> list_all isdigit w"
    by (induction w rule: star.induct) auto
  show "list_all isdigit w \<Longrightarrow> w \<in> star (lang Digit)"
  proof (induction w)
    case Nil
    show ?case by (rule star_empty)
  next
    case (Cons c w)
    then have "[c] \<in> lang Digit" "w \<in> star (lang Digit)"
      by auto
    then have "[c] @ w \<in> star (lang Digit)"
      by (rule star_round)
    then show ?case by simp
  qed
qed

lemma lang_Plus_Digit: "w \<in> lang (Plus Digit) \<longleftrightarrow> digits w"
proof
  assume "w \<in> lang (Plus Digit)"
  then obtain c v where "w = [c] @ v" "isdigit c" "v \<in> star (lang Digit)"
    by (auto simp add: Plus_def)
  then show "digits w"
    by (simp add: digits_def star_Digit del: lang.simps)
next
  assume "digits w"
  then obtain c v where "w = c # v" "isdigit c" "list_all isdigit v"
    by (cases w) (auto simp add: digits_def)
  then have "w = [c] @ v" "[c] \<in> lang Digit" "v \<in> star (lang Digit)"
    by (simp_all add: star_Digit del: lang.simps) simp
  then show "w \<in> lang (Plus Digit)"
    unfolding Plus_def lang.simps by blast
qed

lemma star_single: "w \<in> star {x} \<longleftrightarrow> (\<exists>k. w = repeated k x)"
proof
  show "w \<in> star {x} \<Longrightarrow> \<exists>k. w = repeated k x"
  proof (induction w rule: star.induct)
    case star_empty
    have "[] = repeated 0 x" by (simp add: repeated_def)
    then show ?case by blast
  next
    case (star_round u v)
    then obtain k where "v = repeated k x" by blast
    with star_round.hyps(1) have "u @ v = repeated (Suc k) x"
      by (simp add: repeated_def)
    then show ?case by blast
  qed
next
  assume "\<exists>k. w = repeated k x"
  then obtain k where "w = repeated k x" by blast
  moreover have "repeated k x \<in> star {x}"
  proof (induction k)
    case 0
    show ?case by (simp add: repeated_def star_empty)
  next
    case (Suc k)
    have "x @ repeated k x \<in> star {x}"
      by (rule star_round) (simp_all add: Suc)
    then show ?case by (simp add: repeated_def)
  qed
  ultimately show "w \<in> star {x}" by simp
qed

lemma lang_EVENT_RE:
  "w \<in> lang EVENT_RE \<longleftrightarrow> (\<exists>ds k. digits ds \<and> w = ds @ repeated k (ustr '' BC'') @ [32, en_dash])"
proof -
  have "lang EVENT_RE =
      {u @ v | u v. u \<in> lang (Plus Digit) \<and> v \<in> {b @ d | b d. b \<in> star {ustr '' BC''} \<and> d \<in> {[32, en_dash]}}}"
    by (simp add: EVENT_RE_def)
  then show ?thesis
    by (auto simp add: lang_Plus_Digit star_single)
qed

lemma event_item_iff:
  "event_item x \<longleftrightarrow>
     (\<exists>ds k rest. digits ds \<and> get_text x = ds @ repeated k (ustr '' BC'') @ [32, en_dash] @ rest)"
proof
  assume "event_item x"
  then obtain w r where "w \<in> lang EVENT_RE" "get_text x = w @ r"
    unfolding event_item_def re_match_iff by blast
  then obtain ds k where "digits ds" "get_text x = (ds @ repeated k (ustr '' BC'') @ [32, en_dash]) @ r"
    unfolding lang_EVENT_RE by blast
  then have "digits ds \<and> get_text x = ds @ repeated k (ustr '' BC'') @ [32, en_dash] @ r"
    by simp
  then show "\<exists>ds k rest. digits ds \<and> get_text x = ds @ repeated k (ustr '' BC'') @ [32, en_dash] @ rest"
    by blast
next
  assume "\<exists>ds k rest. digits ds \<and> get_text x = ds @ repeated k (ustr '' BC'') @ [32, en_dash] @ rest"
  then obtain ds k rest where d: "digits ds"
    and t: "get_text x = ds @ repeated k (ustr '' BC'') @ [32, en_dash] @ rest"
    by blast
  from d have "ds @ repeated k (ustr '' BC'') @ [32, en_dash] \<in> lang EVENT_RE"
    unfolding lang_EVENT_RE by blast
  moreover from t have "get_text x = (ds @ repeated k (ustr '' BC'') @ [32, en_dash]) @ rest"
    by simp
  ultimately show "event_item x"
    unfolding event_item_def re_match_iff by blast
qed

text \<open>
  C3, as stated, fails: the pattern of the source repeats \<open>BC\<close> any number of times,
  so a text with two of them is accepted, which the stated pattern rejects.
\<close>

theorem event_item_counter: "event_item li_bc_bc \<and> \<not> spec_event_item li_bc_bc"
  by (simp add: eval_simps li_bc_bc_def spec_event_item_def spec_EVENT_RE_def)

text \<open>
  C3, amended. The classifier accepts a list item whenever its text starts with one or
  more digits, then \<open>BC\<close> preceded by a space any number of times (also none), then the
  dash with a space on each side; and it accepts no list item whose text does not start
  with one or more digits, any number of \<open>BC\<close>, a space and the dash. It rejects
  "Edmund Burke is born." and accepts "1776 - The United States declares independence."
  (with the en dash).
\<close>

theorem event_item_pattern:
  "(digits ds \<and> get_text x = ds @ repeated k (ustr '' BC'') @ dash_sep @ rest \<longrightarrow> event_item x)
   \<and> (event_item x \<longrightarrow>
        (\<exists>ds k rest. digits ds \<and> get_text x = ds @ repeated k (ustr '' BC'') @ [32, en_dash] @ rest))
   \<and> \<not> event_item li_burke
   \<and> event_item li_independence"
proof (intro conjI impI)
  assume "digits ds \<and> get_text x = ds @ repeated k (ustr '' BC'') @ dash_sep @ rest"
  then have "digits ds \<and> get_text x = ds @ repeated k (ustr '' BC'') @ [32, en_dash] @ (32 # rest)"
    by (simp add: dash_sep_def)
  then show "event_item x"
    unfolding event_item_iff by blast
next
  assume "event_item x"
  then show "\<exists>ds k rest. digits ds \<and> get_text x = ds @ repeated k (ustr '' BC'') @ [32, en_dash] @ rest"
    by (simp only: event_item_iff)
next
  show "\<not> event_item li_burke"
    by (simp add: eval_simps sample_simps)
  show "event_item li_independence"
    by (simp add: eval_simps li_independence_def)
qed

theorem event_item_pattern_witness:
  "digits (ustr ''1776'')
   \<and> get_text li_independence
       = ustr ''1776'' @ repeated 0 (ustr '' BC'') @ dash_sep @ ustr ''The United States declares independence.''
   \<and> event_item li_independence
   \<and> (\<exists>ds k rest. digits ds \<and> get_text li_independence = ds @ repeated k (ustr '' BC'') @ [32, en_dash] @ rest)"
proof -
  have d: "digits (ustr ''1776'')"
    by (simp add: digits_def eval_simps)
  have t: "get_text li_independence
       = ustr ''1776'' @ repeated 0 (ustr '' BC'') @ dash_sep @ ustr ''The United States declares independence.''"
    by (simp add: li_independence_def repeated_def)
  from event_item_pattern [of "ustr ''1776''" li_independence 0 "ustr ''The United States declares independence.''"] d t
  show ?thesis by blast
qed

section \<open>Digits and whitespace\<close>








section \<open>Searching, splitting and replacing\<close>

lemma find_str_Some_prefix: "find_str sub s = Some i \<Longrightarrow> i \<le> length s \<and> prefix sub (drop i s)"
proof (induction s arbitrary: i)
  case Nil
  then show ?case by (simp split: if_splits)
next
  case (Cons c cs)
  show ?case
  proof (cases "prefix sub (c # cs)")
    case True
    with Cons.prems show ?thesis by simp
  next
    case False
    with Cons.prems obtain j where "find_str sub cs = Some j" "i = Suc j"
      by auto
    with Cons.IH [of j] show ?thesis by simp
  qed
qed

lemma find_str_Some_split:
  assumes "find_str sub s = Some i"
  shows "s = take i s @ sub @ drop (i + length sub) s"
proof -
  from find_str_Some_prefix [OF assms] obtain q where "drop i s = sub @ q"
    by (auto simp add: prefix_def)
  then have "drop (i + length sub) s = q"
    by (metis add.commute append_eq_conv_conj drop_drop)
  with \<open>drop i s = sub @ q\<close> have "take i s @ sub @ drop (i + length sub) s = take i s @ drop i s"
    by simp
  then show ?thesis by simp
qed

lemma find_str_occurs: "find_str sub (p @ sub @ q) \<noteq> None"
proof (induction p)
  case Nil
  show ?case
  proof (cases "sub @ q")
    case Nil
    then show ?thesis by simp
  next
    case (Cons a l)
    have "prefix sub (sub @ q)" by simp
    with Cons have "prefix sub (a # l)" by simp
    with Cons show ?thesis by simp
  qed
next
  case (Cons a p)
  then show ?case by auto
qed

lemma contains_iff: "contains sub s \<longleftrightarrow> (\<exists>p q. s = p @ sub @ q)"
proof
  assume "contains sub s"
  then obtain i where "find_str sub s = Some i"
    by (auto simp add: contains_def)
  from find_str_Some_split [OF this] show "\<exists>p q. s = p @ sub @ q"
    by blast
next
  assume "\<exists>p q. s = p @ sub @ q"
  then show "contains sub s"
    using find_str_occurs by (auto simp add: contains_def)
qed

lemma find_str_first:
  assumes "find_str sub s = Some i" "s = p @ sub @ q"
  shows "i \<le> length p"
  using assms
proof (induction s arbitrary: i p)
  case Nil
  then show ?case by (simp split: if_splits)
next
  case (Cons c cs)
  show ?case
  proof (cases "prefix sub (c # cs)")
    case True
    with Cons.prems(1) show ?thesis by simp
  next
    case False
    with Cons.prems(1) obtain j where j: "find_str sub cs = Some j" "i = Suc j"
      by auto
    from False Cons.prems(2) have "p \<noteq> []"
      by (auto simp add: prefix_def)
    then obtain p' where p': "p = c # p'" "cs = p' @ sub @ q"
      using Cons.prems(2) by (cases p) auto
    from Cons.IH [OF j(1) p'(2)] j(2) p'(1) show ?thesis by simp
  qed
qed

lemma find_str_clean:
  assumes "sub \<noteq> []" "hd sub \<notin> set s"
  shows "find_str sub s = None"
  using assms
proof (induction s)
  case Nil
  then show ?case by simp
next
  case (Cons c cs)
  from Cons.prems have "\<not> prefix sub (c # cs)"
    by (cases sub) auto
  with Cons show ?case by simp
qed

lemma find_str_after_clean:
  assumes "sub \<noteq> []" "hd sub \<notin> set p"
  shows "find_str sub (p @ sub @ q) = Some (length p)"
  using assms
proof (induction p)
  case Nil
  then show ?case by (cases sub) auto
next
  case (Cons a p)
  from Cons.prems have "\<not> prefix sub (a # p @ sub @ q)"
    by (cases sub) auto
  with Cons show ?case by simp
qed


lemma split_no_sep: "find_str sep s = None \<Longrightarrow> split s sep = [s]"
  by (subst split.simps) simp

lemma split_field:
  assumes "c \<notin> set d"
  shows "split (d @ c # r) [c] = d # split r [c]"
proof -
  have "find_str [c] (d @ [c] @ r) = Some (length d)"
    using assms by (intro find_str_after_clean) simp_all
  then show ?thesis
    by (subst split.simps) simp
qed

lemma split_last_field: "c \<notin> set d \<Longrightarrow> split d [c] = [d]"
  by (rule split_no_sep) (simp add: find_str_clean)






section \<open>The year of an entry\<close>











section \<open>The title of a linked page\<close>

lemma wiki_codes: "wiki = [119, 105, 107, 105, 47]"
  by (simp add: wiki_def ustr_def)

lemma split_nonempty: "split s sep \<noteq> []"
  by (subst split.simps) (simp split: option.splits)

lemma last_split:
  assumes "sep \<noteq> []"
  shows "\<not> contains sep (last (split s sep))
     \<and> (contains sep s \<longrightarrow> (\<exists>pre. s = pre @ sep @ last (split s sep)))"
  using assms
proof (induction s sep rule: split.induct)
  case (1 s sep)
  show ?case
  proof (cases "find_str sep s")
    case None
    then have "split s sep = [s]"
      by (rule split_no_sep)
    with None show ?thesis
      by (simp add: contains_def)
  next
    case (Some i)
    let ?rest = "drop (i + length sep) s"
    from Some "1.prems" have sp: "split s sep = take i s # split ?rest sep"
      by (subst split.simps) simp
    then have l: "last (split s sep) = last (split ?rest sep)"
      by (simp add: split_nonempty)
    from "1.IH" [OF Some "1.prems" "1.prems"]
    have ih: "\<not> contains sep (last (split ?rest sep))"
      "contains sep ?rest \<longrightarrow> (\<exists>pre. ?rest = pre @ sep @ last (split ?rest sep))"
      by simp_all
    have s: "s = take i s @ sep @ ?rest"
      by (rule find_str_Some_split [OF Some])
    have "\<exists>pre. s = pre @ sep @ last (split s sep)"
    proof (cases "contains sep ?rest")
      case True
      with ih(2) obtain pre where "?rest = pre @ sep @ last (split ?rest sep)"
        by blast
      with s have "s = (take i s @ sep @ pre) @ sep @ last (split s sep)"
        by (simp add: l)
      then show ?thesis by blast
    next
      case False
      then have "split ?rest sep = [?rest]"
        by (intro split_no_sep) (simp add: contains_def)
      with s l have "s = take i s @ sep @ last (split s sep)"
        by simp
      then show ?thesis by blast
    qed
    with ih(1) l show ?thesis by simp
  qed
qed

lemma wiki_last_occurrence:
  assumes a: "s = pre @ wiki @ t" and b: "s = pre' @ wiki @ t'" and clean: "\<not> contains wiki t"
  shows "length t \<le> length t'"
proof (rule ccontr)
  assume "\<not> length t \<le> length t'"
  then have lt: "length t' < length t" by simp
  from a b have len: "length pre + length t = length pre' + length t'"
    by (metis add_left_cancel length_append add.commute add.left_commute)
  with lt have gt: "length pre < length pre'" by simp
  define d where "d = length pre' - length pre"
  from gt have d: "0 < d" "length pre' = length pre + d"
    by (simp_all add: d_def)
  show False
  proof (cases "5 \<le> d")
    case True
    have "drop (length pre + 5) s = t"
      using a by (simp add: wiki_codes)
    moreover have "drop (length pre') s = wiki @ t'"
      using b by simp
    moreover have "drop (length pre') s = drop (d - 5) (drop (length pre + 5) s)"
      using True d by (simp add: add.commute)
    ultimately have "drop (d - 5) t = wiki @ t'"
      by simp
    then have "t = take (d - 5) t @ wiki @ t'"
      by (metis append_take_drop_id)
    then have "contains wiki t"
      unfolding contains_iff by blast
    with clean show False by simp
  next
    case False
    with d have cases: "d = 1 \<or> d = 2 \<or> d = 3 \<or> d = 4"
      by auto
    have "s ! (length pre') = 119"
      using b by (simp add: nth_append wiki_codes)
    moreover have "s ! (length pre + d) = wiki ! d"
      using a cases by (auto simp add: nth_append wiki_codes)
    ultimately have "wiki ! d = 119"
      using d by simp
    with cases show False
      by (auto simp add: wiki_codes)
  qed
qed

lemma get_wikilink_coordinates_requests:
  assumes "map_of attrs (ustr ''href'') = Some (AStr href)"
  shows "snd (get_wikilink_coordinates E (Tag name attrs contents) reqs)
     = (if contains (ustr ''wiki/'') href
        then reqs @ [WIKI_API @ last (split href (ustr ''wiki/''))] else reqs)"
  using assms by (simp add: Let_def split: response.splits)

text \<open>
  C10. For a link whose \<open>href\<close> is a string: without \<^verbatim>\<open>wiki/\<close> anywhere in it the
  resolver returns \<open>None\<close> and makes no request; with \<^verbatim>\<open>wiki/\<close> anywhere in
  it (in an absolute address of another site as well) it makes one request, to the
  endpoint followed by the title, which is the part of the \<open>href\<close> after the last
  occurrence of \<^verbatim>\<open>wiki/\<close>: no occurrence has a shorter remainder.
\<close>

theorem wikilink_title:
  assumes "map_of attrs (ustr ''href'') = Some (AStr href)"
  shows "(\<not> contains wiki href \<longrightarrow>
           get_wikilink_coordinates E (Tag name attrs contents) reqs = (Inr None, reqs))
    \<and> (contains wiki href \<longrightarrow>
         (\<exists>pre title.
            href = pre @ wiki @ title
            \<and> (\<forall>pre' title'. href = pre' @ wiki @ title' \<longrightarrow> length title \<le> length title')
            \<and> snd (get_wikilink_coordinates E (Tag name attrs contents) reqs)
                = reqs @ [WIKI_API @ title]))"
proof (intro conjI impI)
  assume "\<not> contains wiki href"
  with assms show "get_wikilink_coordinates E (Tag name attrs contents) reqs = (Inr None, reqs)"
    by (simp add: wiki_def)
next
  assume c: "contains wiki href"
  have w: "wiki \<noteq> []" by (simp add: wiki_codes)
  let ?title = "last (split href wiki)"
  from last_split [OF w, of href] c obtain pre where clean: "\<not> contains wiki ?title"
    and h: "href = pre @ wiki @ ?title"
    by blast
  have "\<forall>pre' title'. href = pre' @ wiki @ title' \<longrightarrow> length ?title \<le> length title'"
    using wiki_last_occurrence [OF h _ clean] by blast
  moreover have "snd (get_wikilink_coordinates E (Tag name attrs contents) reqs) = reqs @ [WIKI_API @ ?title]"
    using get_wikilink_coordinates_requests [OF assms] c by (simp add: wiki_def)
  ultimately show "\<exists>pre title.
            href = pre @ wiki @ title
            \<and> (\<forall>pre' title'. href = pre' @ wiki @ title' \<longrightarrow> length title \<le> length title')
            \<and> snd (get_wikilink_coordinates E (Tag name attrs contents) reqs)
                = reqs @ [WIKI_API @ title]"
    using h by blast
qed

theorem wikilink_title_witness:
  "map_of [(ustr ''href'', AStr (ustr ''https://example.org/wiki/a/wiki/Main_Page''))] (ustr ''href'')
     = Some (AStr (ustr ''https://example.org/wiki/a/wiki/Main_Page''))
   \<and> contains wiki (ustr ''https://example.org/wiki/a/wiki/Main_Page'')
   \<and> snd (get_wikilink_coordinates sample_env
        (Tag (ustr ''a'') [(ustr ''href'', AStr (ustr ''https://example.org/wiki/a/wiki/Main_Page''))] []) [])
      = [WIKI_API @ ustr ''Main_Page'']
   \<and> \<not> contains wiki (ustr ''#cite_note-1'')
   \<and> get_wikilink_coordinates sample_env
        (Tag (ustr ''a'') [(ustr ''href'', AStr (ustr ''#cite_note-1''))] []) [] = (Inr None, [])"
proof -
  have m: "map_of [(ustr ''href'', AStr (ustr ''https://example.org/wiki/a/wiki/Main_Page''))] (ustr ''href'')
     = Some (AStr (ustr ''https://example.org/wiki/a/wiki/Main_Page''))"
    by simp
  have c: "contains wiki (ustr ''https://example.org/wiki/a/wiki/Main_Page'')"
    by (simp add: wiki_def eval_simps)
  have m2: "map_of [(ustr ''href'', AStr (ustr ''#cite_note-1''))] (ustr ''href'') = Some (AStr (ustr ''#cite_note-1''))"
    by simp
  have c2: "\<not> contains wiki (ustr ''#cite_note-1'')"
    by (simp add: wiki_def eval_simps)
  have r: "snd (get_wikilink_coordinates sample_env
        (Tag (ustr ''a'') [(ustr ''href'', AStr (ustr ''https://example.org/wiki/a/wiki/Main_Page''))] []) [])
      = [WIKI_API @ ustr ''Main_Page'']"
    by (simp add: eval_simps sample_simps)
  from wikilink_title [OF m2, of sample_env "ustr ''a''" "[]" "[]"] c2
  have n: "get_wikilink_coordinates sample_env
        (Tag (ustr ''a'') [(ustr ''href'', AStr (ustr ''#cite_note-1''))] []) [] = (Inr None, [])"
    by blast
  from m c r c2 n show ?thesis
    by (intro conjI)
qed

end
